theory Spec2Isabelle
  imports Main "HOL-Library.Sublist" "HOL-Library.Word"
begin

text \<open>
  A model of the agent runtime of the skilled-agent template: the three tools the language
  model can call (\<^verbatim>\<open>runScript\<close>, \<^verbatim>\<open>listDirectory\<close>, \<^verbatim>\<open>readFile\<close>) with their input schemas,
  the \<^verbatim>\<open>prepareStep\<close> hook that windows the message history, and \<^verbatim>\<open>streamAgentResponse\<close>
  with the chat loop around it. Two modules of the repository define the agent. The tools
  are taken from the one whose schemas refine their input and whose \<^verbatim>\<open>execute\<close> functions
  check existence, size and exit status; \<^verbatim>\<open>src/index.ts\<close> holds a shorter variant of the
  tools. \<^verbatim>\<open>prepareStep\<close>, \<^verbatim>\<open>streamAgentResponse\<close> and the loop are the same in both.
\<close>

section \<open>JavaScript string primitives used by the tools\<close>

text \<open>
  The strings of the tools are lists of characters. The tools only compare, search and
  split on ASCII characters, so the operations below do not depend on the width of a code
  unit. The lines of the chat loop are lists of 16-bit code units, further down: what
  \<^verbatim>\<open>trim\<close> removes depends on code points beyond ASCII.
\<close>

definition replaceBackslashes :: "string \<Rightarrow> string" where
  \<comment> \<open>\<^verbatim>\<open>path.replace(/\\/g, '/')\<close>\<close>
  "replaceBackslashes path = map (\<lambda>c. if c = CHR 0x5C then CHR ''/'' else c) path"

fun startsWith :: "string \<Rightarrow> string \<Rightarrow> bool" where
  "startsWith s [] = True"
| "startsWith [] (p # ps) = False"
| "startsWith (c # cs) (p # ps) = (c = p \<and> startsWith cs ps)"

fun js_includes :: "string \<Rightarrow> string \<Rightarrow> bool" where
  \<comment> \<open>\<^verbatim>\<open>s.includes(p)\<close>: \<open>p\<close> occurs somewhere in \<open>s\<close>\<close>
  "js_includes [] p = (p = [])"
| "js_includes (c # cs) p = (startsWith (c # cs) p \<or> js_includes cs p)"

definition endsWith :: "string \<Rightarrow> string \<Rightarrow> bool" where
  "endsWith s suf = startsWith (rev s) (rev suf)"

fun js_split :: "char \<Rightarrow> string \<Rightarrow> string list" where
  \<comment> \<open>\<^verbatim>\<open>s.split(sep)\<close> for a one-character separator: the empty string gives one empty piece\<close>
  "js_split sep [] = [[]]"
| "js_split sep (c # cs) =
     (if c = sep then [] # js_split sep cs
      else (case js_split sep cs of [] \<Rightarrow> [[c]] | w # ws \<Rightarrow> (c # w) # ws))"

fun join :: "string \<Rightarrow> string list \<Rightarrow> string" where
  \<comment> \<open>\<^verbatim>\<open>xs.join(sep)\<close>\<close>
  "join sep [] = []"
| "join sep [x] = x"
| "join sep (x # y # ys) = x @ sep @ join sep (y # ys)"

definition toLowerAscii :: "char \<Rightarrow> char" where
  \<comment> \<open>case folding of the \<^verbatim>\<open>/i\<close> flag, which on the ASCII pattern below only folds A-Z\<close>
  "toLowerAscii c =
     (case map_of (zip ''ABCDEFGHIJKLMNOPQRSTUVWXYZ'' ''abcdefghijklmnopqrstuvwxyz'') c of
        Some l \<Rightarrow> l | None \<Rightarrow> c)"

function string_of_nat :: "nat \<Rightarrow> string" where
  \<comment> \<open>decimal rendering of a number inside a template literal\<close>
  "string_of_nat n =
     (if n < 10 then [''0123456789'' ! n]
      else string_of_nat (n div 10) @ [''0123456789'' ! (n mod 10)])"
  by pat_completeness auto
termination
  by (relation "measure id") auto

declare string_of_nat.simps [simp del]

section \<open>The environment of a tool call\<close>

text \<open>
  The file system and the process layer are external. A tool sees them through the
  answers of the runtime calls it makes; the record \<open>world\<close> holds those answers, and
  every call a tool makes is written to a trace of effects, in the order of the source.
\<close>

record js_error =
  err_code :: "string option"
  err_message :: string

record bun_file =
  file_size :: nat
  file_text :: "js_error + string"

record dirent =
  entry_name :: string
  entry_isDirectory :: bool

datatype process =
    SpawnThrows js_error
  | Exited (exitCode: "nat option") (stdout: string) (stderr: string)

record world =
  files :: "string \<Rightarrow> bun_file option"
  test_x :: "string \<Rightarrow> bool"
  spawn :: "string \<Rightarrow> string list \<Rightarrow> process"
  readdir :: "string \<Rightarrow> js_error + dirent list"

datatype effect =
    FileExists string
  | TestExecutable string
  | Spawn string "string list"
  | FileSize string
  | FileText string
  | Readdir string

datatype tool_result =
    Rejected string
  | Returned string
  | Raised js_error

section \<open>Tool: runScript\<close>

definition SKILLS_PATH :: "string \<Rightarrow> string" where
  \<comment> \<open>\<open>dir\<close> is \<^verbatim>\<open>import.meta.dir\<close>, fixed when the module is loaded\<close>
  "SKILLS_PATH dir = dir @ ''/skills''"

definition runScriptTool_inputSchema :: "string \<Rightarrow> string \<Rightarrow> bool" where
  "runScriptTool_inputSchema dir path =
     (let normalized = replaceBackslashes path in
        startsWith normalized (SKILLS_PATH dir) \<and>
        \<not> js_includes normalized ''../'' \<and>
        3 \<le> length (js_split (CHR ''/'') normalized))"

definition exitCodeText :: "nat option \<Rightarrow> string" where
  \<comment> \<open>\<^verbatim>\<open>${proc.exitCode}\<close>: the code is null when the child was ended by a signal\<close>
  "exitCodeText c = (case c of None \<Rightarrow> ''null'' | Some n \<Rightarrow> string_of_nat n)"

definition runScriptTool_execute ::
    "world \<Rightarrow> string \<Rightarrow> string list \<Rightarrow> effect list \<times> tool_result" where
  "runScriptTool_execute w scriptPath args =
     (if files w scriptPath = None then
        ([FileExists scriptPath], Returned ''Script not found'')
      else if \<not> test_x w scriptPath then
        ([FileExists scriptPath, TestExecutable scriptPath],
         Returned ''Script is not executable'')
      else
        ([FileExists scriptPath, TestExecutable scriptPath, Spawn scriptPath args],
         (case spawn w scriptPath args of
            SpawnThrows e \<Rightarrow> Returned (''Error executing script: '' @ err_message e)
          | Exited c out err \<Rightarrow>
              if c \<noteq> Some 0 then
                Returned (''Script failed with exit code '' @ exitCodeText c @ '': '' @ err)
              else Returned out)))"

record runScript_input =
  scriptPath :: string
  args :: "string list option"

definition argList :: "string list option \<Rightarrow> string list" where
  \<comment> \<open>the default \<^verbatim>\<open>args = []\<close> of the destructuring in \<^verbatim>\<open>execute\<close>\<close>
  "argList a = (case a of None \<Rightarrow> [] | Some xs \<Rightarrow> xs)"

definition runScript ::
    "string \<Rightarrow> world \<Rightarrow> runScript_input \<Rightarrow> effect list \<times> tool_result" where
  \<comment> \<open>a tool call: the agent library checks the input against \<^verbatim>\<open>inputSchema\<close> and only
      then calls \<^verbatim>\<open>execute\<close>\<close>
  "runScript dir w inp =
     (if runScriptTool_inputSchema dir (scriptPath inp) then
        runScriptTool_execute w (scriptPath inp) (argList (args inp))
      else ([], Rejected ''Script path must be within the skills directory''))"

definition spec_lexically_confined :: "string \<Rightarrow> string \<Rightarrow> bool" where
  \<comment> \<open>the contract in the specification's words: the segments of the path start with those
      of the skills root, none is \<^verbatim>\<open>..\<close>, and at least two follow the root\<close>
  "spec_lexically_confined dir path =
     (let segs = js_split (CHR ''/'') (replaceBackslashes path);
          root = js_split (CHR ''/'') (SKILLS_PATH dir)
      in prefix root segs \<and> ''..'' \<notin> set segs \<and> length root + 2 \<le> length segs)"

section \<open>Tool: listDirectory\<close>

definition listDirectoryTool_execute :: "world \<Rightarrow> string \<Rightarrow> effect list \<times> tool_result" where
  "listDirectoryTool_execute w dirPath =
     ([Readdir dirPath],
      (case readdir w dirPath of
         Inr entries \<Rightarrow>
           Returned (join [CHR 0x0A]
             (map (\<lambda>entry. if entry_isDirectory entry then entry_name entry @ ''/''
                            else entry_name entry) entries))
       | Inl err \<Rightarrow>
           if err_code err = Some ''ENOENT'' then Returned ''Directory not found''
           else Raised err))"

section \<open>Tool: readFile\<close>

definition binaryExtensions :: "string list" where
  "binaryExtensions = [''png'', ''jpg'', ''jpeg'', ''gif'', ''bmp'', ''webp'', ''avif'', ''pdf'']"

definition matchesBinaryExtension :: "string \<Rightarrow> bool" where
  \<comment> \<open>\<^verbatim>\<open>/\.(png|jpg|jpeg|gif|bmp|webp|avif|pdf)$/i\<close>\<close>
  "matchesBinaryExtension s =
     list_ex (\<lambda>ext. endsWith (map toLowerAscii s) (CHR ''.'' # ext)) binaryExtensions"

definition readFileTool_inputSchema :: "string \<Rightarrow> bool" where
  "readFileTool_inputSchema path =
     (let normalized = replaceBackslashes path in
        \<not> js_includes normalized ''/.env'' \<and>
        \<not> js_includes normalized ''/.git/'' \<and>
        \<not> js_includes normalized ''node_modules/'' \<and>
        \<not> matchesBinaryExtension normalized)"

definition readFileTool_execute :: "world \<Rightarrow> string \<Rightarrow> effect list \<times> tool_result" where
  "readFileTool_execute w filePath =
     (case files w filePath of
        None \<Rightarrow> ([FileExists filePath], Returned ''File not found'')
      | Some file \<Rightarrow>
          if file_size file > 1000000 then
            ([FileExists filePath, FileSize filePath], Returned ''File too large to read'')
          else
            ([FileExists filePath, FileSize filePath, FileText filePath],
             (case file_text file of
                Inr content \<Rightarrow> Returned content
              | Inl e \<Rightarrow> Returned (''Error reading file: '' @ err_message e))))"

definition readFile :: "world \<Rightarrow> string \<Rightarrow> effect list \<times> tool_result" where
  \<comment> \<open>a tool call: \<^verbatim>\<open>inputSchema\<close> first, \<^verbatim>\<open>execute\<close> only on a valid input\<close>
  "readFile w filePath =
     (if readFileTool_inputSchema filePath then readFileTool_execute w filePath
      else ([], Rejected ''Cannot read that file path''))"

definition isEnvFileName :: "string \<Rightarrow> bool" where
  "isEnvFileName seg = (seg = ''.env'' \<or> startsWith seg ''.env.'')"

definition spec_references_denylisted :: "string \<Rightarrow> bool" where
  \<comment> \<open>the denylist in the specification's words, read on the segments of the normalized
      path: the file named is an environment file, or a segment before the last is the
      version-control directory or the dependency cache, or the path ends in a listed
      extension\<close>
  "spec_references_denylisted path =
     (let normalized = replaceBackslashes path;
          segs = js_split (CHR ''/'') normalized
      in isEnvFileName (last segs) \<or>
         ''.git'' \<in> set (butlast segs) \<or>
         ''node_modules'' \<in> set (butlast segs) \<or>
         matchesBinaryExtension normalized)"

section \<open>Context window manager: prepareStep\<close>

text \<open>
  A JavaScript array slot either holds a message or is \<^verbatim>\<open>undefined\<close>; a slot is an
  \<open>option\<close>. The messages themselves are opaque to \<^verbatim>\<open>prepareStep\<close>.
\<close>

definition index0 :: "'a option list \<Rightarrow> 'a option" where
  \<comment> \<open>\<^verbatim>\<open>messages[0]\<close>, which is \<^verbatim>\<open>undefined\<close> on the empty array\<close>
  "index0 messages = (case messages of [] \<Rightarrow> None | m # _ \<Rightarrow> m)"

definition slice_last :: "nat \<Rightarrow> 'a list \<Rightarrow> 'a list" where
  \<comment> \<open>\<^verbatim>\<open>xs.slice(-n)\<close> for \<open>n > 0\<close>: it starts at \<open>max (length xs - n) 0\<close>\<close>
  "slice_last n xs = drop (length xs - n) xs"

definition isDefined :: "'a option \<Rightarrow> bool" where
  \<comment> \<open>the type guard \<^verbatim>\<open>msg !== undefined\<close>\<close>
  "isDefined msg = (msg \<noteq> None)"

definition prepareStep :: "'a option list \<Rightarrow> 'a option list option" where
  \<comment> \<open>\<open>None\<close> is the empty object \<^verbatim>\<open>{}\<close>: no override of the messages\<close>
  "prepareStep messages =
     (if length messages > 8 then
        Some (filter isDefined (index0 messages # slice_last 8 messages))
      else None)"

definition stepMessages :: "'a option list \<Rightarrow> 'a option list" where
  \<comment> \<open>the messages of the upcoming step: the agent library takes the \<^verbatim>\<open>messages\<close> of the
      object \<^verbatim>\<open>prepareStep\<close> returns, and the candidate list when there is none\<close>
  "stepMessages messages =
     (case prepareStep messages of Some ms \<Rightarrow> ms | None \<Rightarrow> messages)"

definition keptIndices :: "'a option list \<Rightarrow> nat list" where
  \<comment> \<open>the positions of the candidate list that \<open>stepMessages\<close> keeps, in order\<close>
  "keptIndices ms =
     (if 8 < length ms then
        filter (\<lambda>i. isDefined (ms ! i)) (0 # [length ms - 8..<length ms])
      else [0..<length ms])"

section \<open>Turn executor: streamAgentResponse and the chat loop\<close>

type_synonym code_unit = "16 word"

type_synonym js_text = "code_unit list"

definition units :: "string \<Rightarrow> js_text" where
  \<comment> \<open>the code units of a text written in ASCII\<close>
  "units s = map of_char s"

definition isWhiteSpace :: "code_unit \<Rightarrow> bool" where
  \<comment> \<open>what \<^verbatim>\<open>String.prototype.trim\<close> strips: the white space of ECMAScript (TAB, VT, FF,
      U+FEFF and the space separators of Unicode) and its line terminators (LF, CR,
      U+2028, U+2029), each one code unit\<close>
  "isWhiteSpace c =
     (c \<in> set [0x0009, 0x000B, 0x000C, 0xFEFF,
                0x0020, 0x00A0, 0x1680, 0x2000, 0x2001, 0x2002, 0x2003, 0x2004, 0x2005,
                0x2006, 0x2007, 0x2008, 0x2009, 0x200A, 0x202F, 0x205F, 0x3000,
                0x000A, 0x000D, 0x2028, 0x2029])"

definition trim :: "js_text \<Rightarrow> js_text" where
  "trim s = rev (dropWhile isWhiteSpace (rev (dropWhile isWhiteSpace s)))"

datatype role = User | Assistant

record message =
  role :: role
  content :: js_text

type_synonym agent = "message list \<Rightarrow> js_error + js_text list"

text \<open>
  \<open>agent\<close> is \<^verbatim>\<open>agent.stream({ messages }).textStream\<close> drained to its end: the text parts
  in order, or the error the stream raised. The language model behind it is opaque.
  \<^verbatim>\<open>streamAgentResponse\<close> has no handler, so an error leaves it before the second
  \<^verbatim>\<open>push\<close>, and leaves the top-level loop with it. Writes to the terminal, and the tool
  monitor that only prints, are left out.
\<close>

definition streamAgentResponse ::
    "agent \<Rightarrow> message list \<Rightarrow> js_text \<Rightarrow> js_error + message list" where
  "streamAgentResponse agent conversationHistory prompt =
     (let history = conversationHistory @ [\<lparr>role = User, content = prompt\<rparr>] in
        case agent history of
          Inl e \<Rightarrow> Inl e
        | Inr textParts \<Rightarrow>
            Inr (history @
              [\<lparr>role = Assistant,
                content = foldl (\<lambda>assistantResponse textPart. assistantResponse @ textPart)
                            [] textParts\<rparr>]))"

fun chat_loop ::
    "agent \<Rightarrow> message list \<Rightarrow> js_text list \<Rightarrow> js_error + message list" where
  \<comment> \<open>\<^verbatim>\<open>for await (const line of console)\<close> over the lines read so far\<close>
  "chat_loop agent conversationHistory [] = Inr conversationHistory"
| "chat_loop agent conversationHistory (line # lines) =
     (if trim line = [] then chat_loop agent conversationHistory lines
      else (case streamAgentResponse agent conversationHistory line of
              Inl e \<Rightarrow> Inl e
            | Inr history \<Rightarrow> chat_loop agent history lines))"

definition completedTurns :: "js_text list \<Rightarrow> nat" where
  \<comment> \<open>the lines that start a turn: those that are not blank\<close>
  "completedTurns lines = length (filter (\<lambda>line. trim line \<noteq> []) lines)"

datatype finish_reason = Stop | ToolCalls

datatype step_result =
    StepFault js_error
  | Step (text_parts: "js_text list") (finish: finish_reason)

type_synonym backend = "message list \<Rightarrow> nat \<Rightarrow> step_result"

fun agent_steps ::
    "(nat \<Rightarrow> step_result) \<Rightarrow> nat \<Rightarrow> nat \<Rightarrow> js_error + js_text list" where
  \<comment> \<open>Modelled from the spec: the step loop of the agent library, which is not part of the
      sources. A turn is driven through inference steps; a step yields text parts and
      either stops or asks for tool calls, and the loop ends at a stop or when the step
      budget is used up, with the text accumulated so far.\<close>
  "agent_steps model i 0 = Inr []"
| "agent_steps model i (Suc budget) =
     (case model i of
        StepFault e \<Rightarrow> Inl e
      | Step parts fin \<Rightarrow>
          if fin = Stop then Inr parts
          else (case agent_steps model (Suc i) budget of
                  Inl e \<Rightarrow> Inl e
                | Inr rest \<Rightarrow> Inr (parts @ rest)))"

definition agent_stream :: "backend \<Rightarrow> agent" where
  \<comment> \<open>\<^verbatim>\<open>stopWhen: stepCountIs(10)\<close>\<close>
  "agent_stream b messages = agent_steps (b messages) 0 10"

definition exhausts_budget :: "backend \<Rightarrow> message list \<Rightarrow> bool" where
  \<comment> \<open>the budget is used up without a terminal step: each of the ten steps asks for tool
      calls\<close>
  "exhausts_budget b messages =
     list_all (\<lambda>i. case b messages i of Step parts fin \<Rightarrow> fin = ToolCalls | StepFault e \<Rightarrow> False)
       [0..<10]"

definition accumulatedText :: "backend \<Rightarrow> message list \<Rightarrow> js_text" where
  \<comment> \<open>the text parts of the ten steps of the budget, concatenated in order\<close>
  "accumulatedText b messages =
     concat (concat (map (\<lambda>i. text_parts (b messages i)) [0..<10]))"

section \<open>Concrete environments\<close>

definition open_world :: world where
  \<comment> \<open>every path is an executable file, and every script prints \<^verbatim>\<open>done\<close>\<close>
  "open_world =
     \<lparr>files = (\<lambda>p. Some \<lparr>file_size = 9, file_text = Inr ''#!/bin/sh''\<rparr>),
      test_x = (\<lambda>p. True),
      spawn = (\<lambda>p a. Exited (Some 0) ''done'' []),
      readdir = (\<lambda>p. Inr [])\<rparr>"

definition secrets_world :: world where
  \<comment> \<open>a working directory that holds an environment file and a repository\<close>
  "secrets_world =
     \<lparr>files = (\<lambda>p. if p = ''.env'' then Some \<lparr>file_size = 11, file_text = Inr ''API_KEY=abc''\<rparr>
                   else if p = ''.git/config'' then Some \<lparr>file_size = 6, file_text = Inr ''[core]''\<rparr>
                   else None),
      test_x = (\<lambda>p. False),
      spawn = (\<lambda>p a. SpawnThrows \<lparr>err_code = Some ''ENOENT'', err_message = ''ENOENT''\<rparr>),
      readdir = (\<lambda>p. Inr [])\<rparr>"

definition io_error :: js_error where
  "io_error = \<lparr>err_code = Some ''EIO'', err_message = ''EIO: i/o error, read''\<rparr>"

definition sized_world :: world where
  \<comment> \<open>files at the size limit and one byte above it, a file that cannot be read, a
      directory that cannot be listed, and scripts of each kind\<close>
  "sized_world =
     \<lparr>files = (\<lambda>p. if p = ''/data/limit.txt'' then Some \<lparr>file_size = 1000000, file_text = Inr ''abc''\<rparr>
                   else if p = ''/data/over.txt'' then Some \<lparr>file_size = 1000001, file_text = Inr ''abcd''\<rparr>
                   else if p = ''/data/broken.txt'' then Some \<lparr>file_size = 10, file_text = Inl io_error\<rparr>
                   else if p = ''/app/skills/pdf/scripts/data.txt'' then Some \<lparr>file_size = 3, file_text = Inr ''abc''\<rparr>
                   else if p = ''/app/skills/pdf/scripts/fail.sh'' then Some \<lparr>file_size = 3, file_text = Inr ''abc''\<rparr>
                   else if p = ''/app/skills/pdf/scripts/ok.sh'' then Some \<lparr>file_size = 3, file_text = Inr ''abc''\<rparr>
                   else None),
      test_x = (\<lambda>p. p \<noteq> ''/app/skills/pdf/scripts/data.txt''),
      spawn = (\<lambda>p a. if p = ''/app/skills/pdf/scripts/fail.sh'' then Exited (Some 2) [] ''boom''
                     else Exited (Some 0) ''out'' ''warn''),
      readdir = (\<lambda>p. if p = ''/missing'' then Inl \<lparr>err_code = Some ''ENOENT'', err_message = ''no such file or directory''\<rparr>
                     else if p = ''/locked'' then Inl \<lparr>err_code = Some ''EACCES'', err_message = ''permission denied''\<rparr>
                     else Inr [\<lparr>entry_name = ''pdf'', entry_isDirectory = True\<rparr>,
                               \<lparr>entry_name = ''README.md'', entry_isDirectory = False\<rparr>])\<rparr>"

definition throwing_world :: world where
  \<comment> \<open>every path is an executable file that the system refuses to start\<close>
  "throwing_world =
     \<lparr>files = (\<lambda>p. Some \<lparr>file_size = 9, file_text = Inr ''#!/bin/sh''\<rparr>),
      test_x = (\<lambda>p. True),
      spawn = (\<lambda>p a. SpawnThrows \<lparr>err_code = Some ''ENOEXEC'', err_message = ''exec format error''\<rparr>),
      readdir = (\<lambda>p. Inr [])\<rparr>"

definition history :: "nat \<Rightarrow> nat option list" where
  \<comment> \<open>a candidate list of \<open>n\<close> messages, the message at position \<open>i\<close> being \<open>i\<close>\<close>
  "history n = map Some [0..<n]"

definition echo_agent :: agent where
  "echo_agent messages = Inr [units ''o'', units ''k'']"

definition silent_backend :: backend where
  \<comment> \<open>a model that asks for a tool call at every step and writes no text\<close>
  "silent_backend messages i = Step [] ToolCalls"

definition busy_backend :: backend where
  \<comment> \<open>a model that writes one character at every step and always asks for a tool call\<close>
  "busy_backend messages i = Step [units ''.''] ToolCalls"

section \<open>Facts about the string primitives\<close>

lemma startsWith_self_append: "startsWith (p @ ys) p"
  by (induction p) auto

lemma js_includes_append: "js_includes (xs @ p @ ys) p"
proof (induction xs)
  case Nil
  show ?case by (cases "p @ ys") (auto simp: startsWith_self_append dest: sym)
next
  case (Cons x xs)
  then show ?case by simp
qed

lemma length_js_split: "length (js_split sep s) = Suc (length (filter (\<lambda>c. c = sep) s))"
  by (induction s) (auto split: list.splits)

lemma startsWith_append: "startsWith s p \<Longrightarrow> \<exists>r. s = p @ r"
  by (induction s p rule: startsWith.induct) auto

lemma js_split_nonempty: "js_split sep s \<noteq> []"
  by (induction s) (auto split: list.splits)

lemma join_Cons: "ys \<noteq> [] \<Longrightarrow> join sep (x # ys) = x @ sep @ join sep ys"
  by (cases ys) simp_all

lemma join_Cons_Cons: "join sep ((c # w) # ws) = c # join sep (w # ws)"
  by (cases ws) simp_all

lemma join_append:
  "as \<noteq> [] \<Longrightarrow> bs \<noteq> [] \<Longrightarrow> join sep (as @ bs) = join sep as @ sep @ join sep bs"
proof (induction as)
  case Nil
  then show ?case by simp
next
  case (Cons a as)
  show ?case
  proof (cases "as = []")
    case True
    with Cons.prems show ?thesis by (simp add: join_Cons)
  next
    case False
    with Cons show ?thesis by (simp add: join_Cons)
  qed
qed

lemma join_js_split: "join [sep] (js_split sep s) = s"
proof (induction s)
  case Nil
  show ?case by simp
next
  case (Cons c cs)
  show ?case
  proof (cases "c = sep")
    case True
    with Cons show ?thesis by (simp add: join_Cons js_split_nonempty)
  next
    case False
    obtain w ws where s: "js_split sep cs = w # ws"
      using js_split_nonempty [of sep cs] by (cases "js_split sep cs") auto
    with Cons False show ?thesis by (simp add: join_Cons_Cons)
  qed
qed

lemma js_includes_segment_slash:
  assumes "js_split (CHR ''/'') n = as @ seg # rest" and "rest \<noteq> []"
  shows "js_includes n (seg @ ''/'')"
proof -
  have n: "n = join ''/'' (as @ seg # rest)"
    using join_js_split [of "CHR ''/''" n] assms(1) by simp
  have tail: "join ''/'' (seg # rest) = (seg @ ''/'') @ join ''/'' rest"
    using assms(2) by (simp add: join_Cons)
  show ?thesis
  proof (cases "as = []")
    case True
    with n tail have "n = [] @ (seg @ ''/'') @ join ''/'' rest" by simp
    then show ?thesis using js_includes_append by metis
  next
    case False
    then have "n = (join ''/'' as @ ''/'') @ (seg @ ''/'') @ join ''/'' rest"
      using n tail by (simp add: join_append)
    then show ?thesis using js_includes_append by metis
  qed
qed

lemma js_includes_slash_segment:
  assumes "js_split (CHR ''/'') n = as @ seg # rest" and "as \<noteq> []"
  shows "\<exists>ys. n = join ''/'' as @ (''/'' @ seg) @ ys"
proof -
  have n: "n = join ''/'' (as @ seg # rest)"
    using join_js_split [of "CHR ''/''" n] assms(1) by simp
  show ?thesis
  proof (cases "rest = []")
    case True
    with n assms(2) have "n = join ''/'' as @ (''/'' @ seg) @ []" by (simp add: join_append)
    then show ?thesis by blast
  next
    case False
    with n assms(2) have "n = join ''/'' as @ (''/'' @ seg) @ (''/'' @ join ''/'' rest)"
      by (simp add: join_append join_Cons)
    then show ?thesis by blast
  qed
qed

lemma js_split_middle:
  assumes "js_split (CHR ''/'') n = as @ seg # rest" and "as \<noteq> []" and "rest \<noteq> []"
  shows "n = join ''/'' as @ (''/'' @ seg @ ''/'') @ join ''/'' rest"
proof -
  have "n = join ''/'' (as @ seg # rest)"
    using join_js_split [of "CHR ''/''" n] assms(1) by simp
  also have "\<dots> = join ''/'' as @ ''/'' @ join ''/'' (seg # rest)"
    using assms(2) by (simp add: join_append)
  also have "join ''/'' (seg # rest) = seg @ ''/'' @ join ''/'' rest"
    using assms(3) by (simp add: join_Cons)
  finally show ?thesis by simp
qed

lemma js_split_absolute:
  "startsWith n ''/'' \<Longrightarrow> \<exists>ws. js_split (CHR ''/'') n = [] # ws \<and> ws \<noteq> []"
  by (cases n) (auto simp: js_split_nonempty)

lemma js_includes_prefix_of_pattern:
  "js_includes (xs @ (p @ q) @ ys) p"
  using js_includes_append [of xs p "q @ ys"] by simp


section \<open>runScript: validation\<close>

text \<open>
  The third test of the schema counts the segments of the whole path, not those below
  the skills root. \<^verbatim>\<open>import.meta.dir\<close> is an absolute directory, so every path that
  passes the first test passes the third.
\<close>

lemma depth_check_vacuous:
  assumes "startsWith dir ''/''" and "startsWith n (SKILLS_PATH dir)"
  shows "3 \<le> length (js_split (CHR ''/'') n)"
proof -
  obtain d where d: "dir = ''/'' @ d" using assms(1) startsWith_append by blast
  obtain r where r: "n = SKILLS_PATH dir @ r" using assms(2) startsWith_append by blast
  show ?thesis unfolding r d SKILLS_PATH_def length_js_split by simp
qed

text \<open>
  C1. Claim: every path that is not lexically confined to
  \<^verbatim>\<open><skillsRoot>/<skill>/<subpath...>\<close> is rejected by the input schema before a child
  process is spawned. The schema does not do that. With the module in \<^verbatim>\<open>/app\<close>, it accepts
  a script directly in the skills root (one level below it) and a script in the sibling
  directory \<^verbatim>\<open>/app/skills-old\<close> (the prefix test is on characters, not on segments), and
  both calls reach \<^verbatim>\<open>Bun.spawn\<close>. It also accepts the skills root itself and a path whose
  last segment is \<^verbatim>\<open>..\<close> (only \<^verbatim>\<open>../\<close> is searched for).
\<close>

theorem runScript_spawns_unconfined_path:
  "\<not> spec_lexically_confined ''/app'' ''/app/skills/run.sh'' \<and>
   runScript ''/app'' open_world \<lparr>scriptPath = ''/app/skills/run.sh'', args = None\<rparr> =
     ([FileExists ''/app/skills/run.sh'', TestExecutable ''/app/skills/run.sh'',
       Spawn ''/app/skills/run.sh'' []], Returned ''done'') \<and>
   \<not> spec_lexically_confined ''/app'' ''/app/skills-old/x/run.sh'' \<and>
   runScript ''/app'' open_world \<lparr>scriptPath = ''/app/skills-old/x/run.sh'', args = None\<rparr> =
     ([FileExists ''/app/skills-old/x/run.sh'', TestExecutable ''/app/skills-old/x/run.sh'',
       Spawn ''/app/skills-old/x/run.sh'' []], Returned ''done'') \<and>
   \<not> spec_lexically_confined ''/app'' ''/app/skills'' \<and>
   runScriptTool_inputSchema ''/app'' ''/app/skills'' \<and>
   \<not> spec_lexically_confined ''/app'' ''/app/skills/pdf/scripts/..'' \<and>
   runScriptTool_inputSchema ''/app'' ''/app/skills/pdf/scripts/..''"
proof -
  have a: "\<not> spec_lexically_confined ''/app'' ''/app/skills/run.sh''"
    "\<not> spec_lexically_confined ''/app'' ''/app/skills-old/x/run.sh''"
    "\<not> spec_lexically_confined ''/app'' ''/app/skills''"
    "\<not> spec_lexically_confined ''/app'' ''/app/skills/pdf/scripts/..''"
    by (simp_all add: spec_lexically_confined_def SKILLS_PATH_def replaceBackslashes_def)
  have b: "runScriptTool_inputSchema ''/app'' ''/app/skills/run.sh''"
    "runScriptTool_inputSchema ''/app'' ''/app/skills-old/x/run.sh''"
    "runScriptTool_inputSchema ''/app'' ''/app/skills''"
    "runScriptTool_inputSchema ''/app'' ''/app/skills/pdf/scripts/..''"
    by (simp_all add: runScriptTool_inputSchema_def SKILLS_PATH_def replaceBackslashes_def)
  have c: "runScriptTool_execute open_world p [] =
      ([FileExists p, TestExecutable p, Spawn p []], Returned ''done'')" for p
    by (simp add: runScriptTool_execute_def open_world_def)
  show ?thesis using a by (simp add: runScript_def argList_def b c)
qed

text \<open>
  What the schema does enforce: a path it accepts starts, after normalization, with the
  characters of the skills path and does not contain \<^verbatim>\<open>../\<close>; any other path is rejected
  with no effect.
\<close>

lemma runScript_rejected:
  "\<not> startsWith (replaceBackslashes (scriptPath inp)) (SKILLS_PATH dir) \<or>
   js_includes (replaceBackslashes (scriptPath inp)) ''../'' \<Longrightarrow>
   runScript dir w inp = ([], Rejected ''Script path must be within the skills directory'')"
  by (auto simp: runScript_def runScriptTool_inputSchema_def)

section \<open>runScript: results\<close>

lemma runScript_valid:
  "runScriptTool_inputSchema dir (scriptPath inp) \<Longrightarrow>
   runScript dir w inp = runScriptTool_execute w (scriptPath inp) (argList (args inp))"
  by (simp add: runScript_def)

lemma execute_not_found:
  "files w p = None \<Longrightarrow> runScriptTool_execute w p a = ([FileExists p], Returned ''Script not found'')"
  by (simp add: runScriptTool_execute_def)

lemma execute_not_executable:
  "files w p \<noteq> None \<Longrightarrow> \<not> test_x w p \<Longrightarrow>
   runScriptTool_execute w p a = ([FileExists p, TestExecutable p], Returned ''Script is not executable'')"
  by (simp add: runScriptTool_execute_def)

lemma execute_spawned:
  "files w p \<noteq> None \<Longrightarrow> test_x w p \<Longrightarrow>
   runScriptTool_execute w p a =
     ([FileExists p, TestExecutable p, Spawn p a],
      (case spawn w p a of
         SpawnThrows e \<Rightarrow> Returned (''Error executing script: '' @ err_message e)
       | Exited c out err \<Rightarrow>
           if c \<noteq> Some 0 then
             Returned (''Script failed with exit code '' @ exitCodeText c @ '': '' @ err)
           else Returned out))"
  by (simp add: runScriptTool_execute_def)

lemma execute_failed:
  assumes "files w p \<noteq> None" and "test_x w p" and "spawn w p a = Exited (Some n) out err" and "n \<noteq> 0"
  shows "snd (runScriptTool_execute w p a) =
     Returned (''Script failed with exit code '' @ string_of_nat n @ '': '' @ err)"
  unfolding execute_spawned [OF assms(1,2)] assms(3) using assms(4)
  by (simp add: exitCodeText_def)

lemma execute_killed:
  assumes "files w p \<noteq> None" and "test_x w p" and "spawn w p a = Exited None out err"
  shows "snd (runScriptTool_execute w p a) =
     Returned (''Script failed with exit code null: '' @ err)"
  unfolding execute_spawned [OF assms(1,2)] assms(3) by (simp add: exitCodeText_def)

lemma execute_succeeded:
  assumes "files w p \<noteq> None" and "test_x w p" and "spawn w p a = Exited (Some 0) out err"
  shows "snd (runScriptTool_execute w p a) = Returned out"
  unfolding execute_spawned [OF assms(1,2)] assms(3) by simp

text \<open>
  C5. For every call of runScript that passes the input schema: a target that does not
  exist gives \<^verbatim>\<open>Script not found\<close>, and one that exists and fails \<^verbatim>\<open>test -x\<close> gives
  \<^verbatim>\<open>Script is not executable\<close>, in both cases without a spawn; a script that exits with
  a status \<open>n \<noteq> 0\<close> gives the returned string
  \<^verbatim>\<open>Script failed with exit code n: <stderr>\<close>, which contains the code and the captured
  standard error; a script that exits with status 0 gives its standard output unchanged.
\<close>

theorem runScript_results:
  assumes "runScriptTool_inputSchema dir p"
  shows "(files w p = None \<longrightarrow>
            runScript dir w \<lparr>scriptPath = p, args = a\<rparr> =
              ([FileExists p], Returned ''Script not found'')) \<and>
         (files w p \<noteq> None \<and> \<not> test_x w p \<longrightarrow>
            runScript dir w \<lparr>scriptPath = p, args = a\<rparr> =
              ([FileExists p, TestExecutable p], Returned ''Script is not executable'')) \<and>
         (\<forall>n out err.
            files w p \<noteq> None \<and> test_x w p \<and>
            spawn w p (argList a) = Exited (Some n) out err \<and> n \<noteq> 0 \<longrightarrow>
            snd (runScript dir w \<lparr>scriptPath = p, args = a\<rparr>) =
              Returned (''Script failed with exit code '' @ string_of_nat n @ '': '' @ err) \<and>
            js_includes (''Script failed with exit code '' @ string_of_nat n @ '': '' @ err)
              (string_of_nat n) \<and>
            js_includes (''Script failed with exit code '' @ string_of_nat n @ '': '' @ err)
              err) \<and>
         (\<forall>out err.
            files w p \<noteq> None \<and> test_x w p \<and>
            spawn w p (argList a) = Exited (Some 0) out err \<longrightarrow>
            snd (runScript dir w \<lparr>scriptPath = p, args = a\<rparr>) = Returned out)"
proof -
  have v: "runScript dir w \<lparr>scriptPath = p, args = a\<rparr> = runScriptTool_execute w p (argList a)"
    using assms by (simp add: runScript_valid)
  have inc1: "js_includes (''Script failed with exit code '' @ string_of_nat n @ '': '' @ err)
      (string_of_nat n)" for n err
    by (rule js_includes_append)
  have inc2: "js_includes (''Script failed with exit code '' @ string_of_nat n @ '': '' @ err)
      err" for n err
    using js_includes_append [of "''Script failed with exit code '' @ string_of_nat n @ '': ''" err "[]"]
    by simp
  show ?thesis
    unfolding v
  proof (intro conjI allI impI)
    assume "files w p = None"
    then show "runScriptTool_execute w p (argList a) =
        ([FileExists p], Returned ''Script not found'')"
      by (rule execute_not_found)
  next
    assume "files w p \<noteq> None \<and> \<not> test_x w p"
    then show "runScriptTool_execute w p (argList a) =
        ([FileExists p, TestExecutable p], Returned ''Script is not executable'')"
      by (simp add: execute_not_executable)
  next
    fix n out err
    assume "files w p \<noteq> None \<and> test_x w p \<and>
            spawn w p (argList a) = Exited (Some n) out err \<and> n \<noteq> 0"
    then have "files w p \<noteq> None" and "test_x w p"
      and "spawn w p (argList a) = Exited (Some n) out err" and "n \<noteq> 0"
      by simp_all
    then show "snd (runScriptTool_execute w p (argList a)) =
        Returned (''Script failed with exit code '' @ string_of_nat n @ '': '' @ err)"
      by (rule execute_failed)
  next
    fix n :: nat and err
    show "js_includes (''Script failed with exit code '' @ string_of_nat n @ '': '' @ err)
        (string_of_nat n)"
      by (rule inc1)
    show "js_includes (''Script failed with exit code '' @ string_of_nat n @ '': '' @ err) err"
      by (rule inc2)
  next
    fix out err
    assume "files w p \<noteq> None \<and> test_x w p \<and> spawn w p (argList a) = Exited (Some 0) out err"
    then have "files w p \<noteq> None" and "test_x w p"
      and "spawn w p (argList a) = Exited (Some 0) out err"
      by simp_all
    then show "snd (runScriptTool_execute w p (argList a)) = Returned out"
      by (rule execute_succeeded)
  qed
qed

theorem runScript_results_witness:
  "runScriptTool_inputSchema ''/app'' ''/app/skills/pdf/scripts/fail.sh'' \<and>
   snd (runScript ''/app'' sized_world
          \<lparr>scriptPath = ''/app/skills/pdf/scripts/fail.sh'', args = None\<rparr>)
     = Returned ''Script failed with exit code 2: boom'' \<and>
   snd (runScript ''/app'' sized_world
          \<lparr>scriptPath = ''/app/skills/pdf/scripts/ok.sh'', args = Some [''-v'']\<rparr>)
     = Returned ''out'' \<and>
   runScript ''/app'' sized_world
       \<lparr>scriptPath = ''/app/skills/pdf/scripts/data.txt'', args = None\<rparr>
     = ([FileExists ''/app/skills/pdf/scripts/data.txt'',
         TestExecutable ''/app/skills/pdf/scripts/data.txt''],
        Returned ''Script is not executable'') \<and>
   runScript ''/app'' sized_world
       \<lparr>scriptPath = ''/app/skills/pdf/scripts/none.sh'', args = None\<rparr>
     = ([FileExists ''/app/skills/pdf/scripts/none.sh''], Returned ''Script not found'')"
proof -
  have two: "string_of_nat 2 = ''2''" by (simp add: string_of_nat.simps)
  have v1: "runScriptTool_inputSchema ''/app'' ''/app/skills/pdf/scripts/fail.sh''"
    and v2: "runScriptTool_inputSchema ''/app'' ''/app/skills/pdf/scripts/ok.sh''"
    and v3: "runScriptTool_inputSchema ''/app'' ''/app/skills/pdf/scripts/data.txt''"
    and v4: "runScriptTool_inputSchema ''/app'' ''/app/skills/pdf/scripts/none.sh''"
    by (simp_all add: runScriptTool_inputSchema_def SKILLS_PATH_def replaceBackslashes_def)
  have r1: "snd (runScript ''/app'' sized_world
          \<lparr>scriptPath = ''/app/skills/pdf/scripts/fail.sh'', args = None\<rparr>)
     = Returned ''Script failed with exit code 2: boom''"
    using runScript_results [OF v1, of sized_world None]
    by (simp add: sized_world_def argList_def two)
  have r2: "snd (runScript ''/app'' sized_world
          \<lparr>scriptPath = ''/app/skills/pdf/scripts/ok.sh'', args = Some [''-v'']\<rparr>)
     = Returned ''out''"
    using runScript_results [OF v2, of sized_world "Some [''-v'']"]
    by (simp add: sized_world_def argList_def)
  have r3: "runScript ''/app'' sized_world
       \<lparr>scriptPath = ''/app/skills/pdf/scripts/data.txt'', args = None\<rparr>
     = ([FileExists ''/app/skills/pdf/scripts/data.txt'',
         TestExecutable ''/app/skills/pdf/scripts/data.txt''],
        Returned ''Script is not executable'')"
    using runScript_results [OF v3, of sized_world None] by (simp add: sized_world_def)
  have r4: "runScript ''/app'' sized_world
       \<lparr>scriptPath = ''/app/skills/pdf/scripts/none.sh'', args = None\<rparr>
     = ([FileExists ''/app/skills/pdf/scripts/none.sh''], Returned ''Script not found'')"
    using runScript_results [OF v4, of sized_world None] by (simp add: sized_world_def)
  from v1 r1 r2 r3 r4 show ?thesis by simp
qed

section \<open>readFile\<close>

text \<open>
  C2. Claim: every path whose normalized form references an environment file, the
  version-control directory, the dependency cache or a listed binary extension is
  rejected without touching the file system. The schema searches for \<^verbatim>\<open>/.env\<close> and
  \<^verbatim>\<open>/.git/\<close> with the leading separator, so a path relative to the working directory
  that starts with the name is accepted: \<^verbatim>\<open>.env\<close> and \<^verbatim>\<open>.git/config\<close> pass the schema, and
  the tool reads them and returns their content.
\<close>

theorem readFile_reads_relative_secret:
  "spec_references_denylisted ''.env'' \<and>
   readFile secrets_world ''.env'' =
     ([FileExists ''.env'', FileSize ''.env'', FileText ''.env''], Returned ''API_KEY=abc'') \<and>
   spec_references_denylisted ''.git/config'' \<and>
   readFile secrets_world ''.git/config'' =
     ([FileExists ''.git/config'', FileSize ''.git/config'', FileText ''.git/config''],
      Returned ''[core]'')"
proof -
  have a: "spec_references_denylisted ''.env''" "spec_references_denylisted ''.git/config''"
    by (simp_all add: spec_references_denylisted_def replaceBackslashes_def isEnvFileName_def)
  have b: "readFileTool_inputSchema ''.env''" "readFileTool_inputSchema ''.git/config''"
    by (simp_all add: readFileTool_inputSchema_def replaceBackslashes_def
        matchesBinaryExtension_def binaryExtensions_def endsWith_def toLowerAscii_def)
  have c: "readFileTool_execute secrets_world ''.env'' =
      ([FileExists ''.env'', FileSize ''.env'', FileText ''.env''], Returned ''API_KEY=abc'')"
    "readFileTool_execute secrets_world ''.git/config'' =
     ([FileExists ''.git/config'', FileSize ''.git/config'', FileText ''.git/config''],
      Returned ''[core]'')"
    by (simp_all add: readFileTool_execute_def secrets_world_def)
  show ?thesis using a by (simp add: readFile_def b c)
qed

text \<open>
  On a path that is absolute after normalization the schema does reject every path of the
  denylist: each segment after the first is preceded by a separator, which is what the
  search patterns need.
\<close>

lemma absolute_env_rejected:
  assumes "startsWith n ''/''" and "isEnvFileName (last (js_split (CHR ''/'') n))"
  shows "js_includes n ''/.env''"
proof -
  obtain ws where ws: "js_split (CHR ''/'') n = [] # ws" "ws \<noteq> []"
    using js_split_absolute [OF assms(1)] by blast
  let ?seg = "last (js_split (CHR ''/'') n)"
  have sp: "js_split (CHR ''/'') n = ([] # butlast ws) @ ?seg # []"
    using ws by simp
  obtain ys where n: "n = join ''/'' ([] # butlast ws) @ (''/'' @ ?seg) @ ys"
    using js_includes_slash_segment [OF sp] by blast
  obtain r where r: "?seg = ''.env'' @ r"
    using assms(2) startsWith_append [of ?seg "''.env.''"] by (auto simp: isEnvFileName_def)
  have "n = join ''/'' ([] # butlast ws) @ (''/.env'' @ r) @ ys"
    using n unfolding r by simp
  then show ?thesis using js_includes_prefix_of_pattern by metis
qed

lemma absolute_git_rejected:
  assumes "startsWith n ''/''" and "''.git'' \<in> set (butlast (js_split (CHR ''/'') n))"
  shows "js_includes n ''/.git/''"
proof -
  obtain ws where ws: "js_split (CHR ''/'') n = [] # ws" "ws \<noteq> []"
    using js_split_absolute [OF assms(1)] by blast
  have "''.git'' \<in> set (butlast ws)" using assms(2) ws by simp
  then obtain as bs where b: "butlast ws = as @ ''.git'' # bs"
    by (auto simp: in_set_conv_decomp)
  have "ws = butlast ws @ [last ws]" using ws(2) by simp
  then have sp: "js_split (CHR ''/'') n = ([] # as) @ ''.git'' # (bs @ [last ws])"
    using ws(1) b by simp
  have "n = join ''/'' ([] # as) @ (''/'' @ ''.git'' @ ''/'') @ join ''/'' (bs @ [last ws])"
    using sp by (rule js_split_middle) simp_all
  then have "n = join ''/'' ([] # as) @ ''/.git/'' @ join ''/'' (bs @ [last ws])"
    by simp
  then show ?thesis using js_includes_append by metis
qed

lemma node_modules_rejected:
  assumes "''node_modules'' \<in> set (butlast (js_split (CHR ''/'') n))"
  shows "js_includes n ''node_modules/''"
proof -
  let ?segs = "js_split (CHR ''/'') n"
  have ne: "?segs \<noteq> []" by (rule js_split_nonempty)
  obtain as bs where b: "butlast ?segs = as @ ''node_modules'' # bs"
    using assms by (auto simp: in_set_conv_decomp)
  have "?segs = butlast ?segs @ [last ?segs]" using ne by simp
  then have sp: "?segs = as @ ''node_modules'' # (bs @ [last ?segs])"
    using b by simp
  show ?thesis using js_includes_segment_slash [OF sp] by simp
qed

lemma readFile_rejects_absolute_denylisted:
  assumes "startsWith (replaceBackslashes p) ''/''" and "spec_references_denylisted p"
  shows "readFile w p = ([], Rejected ''Cannot read that file path'')"
proof -
  have "\<not> readFileTool_inputSchema p"
    using assms absolute_env_rejected [of "replaceBackslashes p"]
      absolute_git_rejected [of "replaceBackslashes p"]
      node_modules_rejected [of "replaceBackslashes p"]
    unfolding spec_references_denylisted_def readFileTool_inputSchema_def Let_def
    by blast
  then show ?thesis by (simp add: readFile_def)
qed


lemma readFile_rejected:
  "\<not> readFileTool_inputSchema p \<Longrightarrow> readFile w p = ([], Rejected ''Cannot read that file path'')"
  by (simp add: readFile_def)



section \<open>Faults\<close>

lemma listDirectory_missing:
  "readdir w d = Inl err \<Longrightarrow> err_code err = Some ''ENOENT'' \<Longrightarrow>
   snd (listDirectoryTool_execute w d) = Returned ''Directory not found''"
  by (simp add: listDirectoryTool_execute_def)

lemma listDirectory_other_fault:
  "readdir w d = Inl err \<Longrightarrow> err_code err \<noteq> Some ''ENOENT'' \<Longrightarrow>
   snd (listDirectoryTool_execute w d) = Raised err"
  by (simp add: listDirectoryTool_execute_def)

lemma runScript_never_raises: "snd (runScriptTool_execute w p a) \<noteq> Raised e"
  by (simp add: runScriptTool_execute_def split: process.splits)

lemma runScript_spawn_fault:
  "files w p \<noteq> None \<Longrightarrow> test_x w p \<Longrightarrow> spawn w p a = SpawnThrows e \<Longrightarrow>
   snd (runScriptTool_execute w p a) = Returned (''Error executing script: '' @ err_message e)"
  by (simp add: runScriptTool_execute_def)

lemma readFile_never_raises: "snd (readFileTool_execute w p) \<noteq> Raised e"
  by (simp add: readFileTool_execute_def split: option.splits sum.splits)

lemma readFile_not_found:
  "files w p = None \<Longrightarrow> readFileTool_execute w p = ([FileExists p], Returned ''File not found'')"
  by (simp add: readFileTool_execute_def)

lemma readFile_read_fault:
  "files w p = Some f \<Longrightarrow> file_size f \<le> 1000000 \<Longrightarrow> file_text f = Inl e \<Longrightarrow>
   snd (readFileTool_execute w p) = Returned (''Error reading file: '' @ err_message e)"
  by (simp add: readFileTool_execute_def)

text \<open>
  C7, as the code has it. listDirectory turns a missing directory (error code
  \<^verbatim>\<open>ENOENT\<close>) into the result \<^verbatim>\<open>Directory not found\<close> and raises every other failure of
  \<^verbatim>\<open>readdir\<close> to its caller. runScript and readFile never raise: a missing target gives
  \<^verbatim>\<open>Script not found\<close> or \<^verbatim>\<open>File not found\<close>, and a fault inside them is caught and
  returned as the result text \<^verbatim>\<open>Error executing script: <message>\<close> or
  \<^verbatim>\<open>Error reading file: <message>\<close>.
\<close>

theorem tool_fault_handling:
  "(\<forall>err. readdir w d = Inl err \<and> err_code err = Some ''ENOENT'' \<longrightarrow>
      snd (listDirectoryTool_execute w d) = Returned ''Directory not found'') \<and>
   (\<forall>err. readdir w d = Inl err \<and> err_code err \<noteq> Some ''ENOENT'' \<longrightarrow>
      snd (listDirectoryTool_execute w d) = Raised err) \<and>
   (files w p = None \<longrightarrow> snd (runScriptTool_execute w p a) = Returned ''Script not found'') \<and>
   (files w q = None \<longrightarrow> snd (readFileTool_execute w q) = Returned ''File not found'') \<and>
   (\<forall>e. snd (runScriptTool_execute w p a) \<noteq> Raised e) \<and>
   (\<forall>e. files w p \<noteq> None \<and> test_x w p \<and> spawn w p a = SpawnThrows e \<longrightarrow>
      snd (runScriptTool_execute w p a) = Returned (''Error executing script: '' @ err_message e)) \<and>
   (\<forall>e. snd (readFileTool_execute w q) \<noteq> Raised e) \<and>
   (\<forall>f e. files w q = Some f \<and> file_size f \<le> 1000000 \<and> file_text f = Inl e \<longrightarrow>
      snd (readFileTool_execute w q) = Returned (''Error reading file: '' @ err_message e))"
  using listDirectory_missing [of w d] listDirectory_other_fault [of w d]
    runScript_never_raises [of w p a] runScript_spawn_fault [of w p a]
    readFile_never_raises [of w q] readFile_read_fault [of w q]
    execute_not_found [of w p a] readFile_not_found [of w q]
  by (intro conjI allI impI) (elim conjE, assumption | simp)+

theorem tool_fault_handling_witness:
  "snd (listDirectoryTool_execute sized_world ''/missing'') = Returned ''Directory not found'' \<and>
   snd (listDirectoryTool_execute sized_world ''/locked'') =
     Raised \<lparr>err_code = Some ''EACCES'', err_message = ''permission denied''\<rparr> \<and>
   snd (readFileTool_execute sized_world ''/data/none.txt'') = Returned ''File not found'' \<and>
   snd (readFileTool_execute sized_world ''/data/broken.txt'') =
     Returned ''Error reading file: EIO: i/o error, read'' \<and>
   snd (runScriptTool_execute sized_world ''/x'' []) = Returned ''Script not found'' \<and>
   snd (runScriptTool_execute throwing_world ''/x'' []) =
     Returned ''Error executing script: exec format error''"
proof -
  have a: "snd (listDirectoryTool_execute sized_world ''/missing'') =
      Returned ''Directory not found'' \<and>
    snd (readFileTool_execute sized_world ''/data/broken.txt'') =
      Returned ''Error reading file: EIO: i/o error, read'' \<and>
    snd (runScriptTool_execute sized_world ''/x'' []) = Returned ''Script not found''"
    using tool_fault_handling [of sized_world "''/missing''" "''/x''" "[]" "''/data/broken.txt''"]
    by (simp add: sized_world_def io_error_def)
  have b: "snd (listDirectoryTool_execute sized_world ''/locked'') =
      Raised \<lparr>err_code = Some ''EACCES'', err_message = ''permission denied''\<rparr> \<and>
    snd (readFileTool_execute sized_world ''/data/none.txt'') = Returned ''File not found''"
    using tool_fault_handling [of sized_world "''/locked''" "''/x''" "[]" "''/data/none.txt''"]
    by (simp add: sized_world_def)
  have c: "snd (runScriptTool_execute throwing_world ''/x'' []) =
      Returned ''Error executing script: exec format error''"
    using tool_fault_handling [of throwing_world "''/d''" "''/x''" "[]" "''/q''"]
    by (simp add: throwing_world_def)
  from a b c show ?thesis by simp
qed

text \<open>
  C7, as claimed, says that for every tool a failure other than absence is raised and not
  returned as text. readFile on a file whose read fails with an I/O error returns the
  error as text.
\<close>

theorem readFile_returns_fault_as_text:
  "files sized_world ''/data/broken.txt'' = Some \<lparr>file_size = 10, file_text = Inl io_error\<rparr> \<and>
   readFile sized_world ''/data/broken.txt'' =
     ([FileExists ''/data/broken.txt'', FileSize ''/data/broken.txt'', FileText ''/data/broken.txt''],
      Returned ''Error reading file: EIO: i/o error, read'') \<and>
   snd (readFile sized_world ''/data/broken.txt'') \<noteq> Raised io_error"
  by (simp add: readFile_def readFileTool_execute_def sized_world_def io_error_def
      readFileTool_inputSchema_def replaceBackslashes_def matchesBinaryExtension_def
      binaryExtensions_def endsWith_def toLowerAscii_def)

lemma listing_example:
  "listDirectoryTool_execute sized_world ''/app/skills'' =
     ([Readdir ''/app/skills''], Returned (''pdf/'' @ [CHR 0x0A] @ ''README.md''))"
  by (simp add: listDirectoryTool_execute_def sized_world_def)

section \<open>Context window manager\<close>

lemma filter_isDefined_id: "list_all isDefined xs \<Longrightarrow> filter isDefined xs = xs"
  by (induction xs) auto

lemma stepMessages_short: "length ms \<le> 8 \<Longrightarrow> stepMessages ms = ms"
  by (simp add: stepMessages_def prepareStep_def)

lemma head_and_tail:
  "8 < length ms \<Longrightarrow> index0 ms # slice_last 8 ms = ms ! 0 # drop (length ms - 8) ms"
  by (cases ms) (simp_all add: index0_def slice_last_def)

lemma stepMessages_long:
  "8 < length ms \<Longrightarrow> stepMessages ms = filter isDefined (ms ! 0 # drop (length ms - 8) ms)"
  by (simp add: stepMessages_def prepareStep_def head_and_tail)

lemma stepMessages_defined: "8 < length ms \<Longrightarrow> list_all isDefined (stepMessages ms)"
  by (simp add: stepMessages_long list_all_iff)

lemma length_stepMessages_long: "8 < length ms \<Longrightarrow> length (stepMessages ms) \<le> 9"
proof -
  assume a: "8 < length ms"
  have "length (filter isDefined (ms ! 0 # drop (length ms - 8) ms))
          \<le> length (ms ! 0 # drop (length ms - 8) ms)"
    by (rule length_filter_le)
  also have "\<dots> = 9" using a by simp
  finally show ?thesis using a by (simp add: stepMessages_long)
qed

lemma stepMessages_nine:
  assumes "length ms = 9" and "list_all isDefined ms"
  shows "stepMessages ms = ms"
proof -
  obtain m rest where ms: "ms = m # rest" using assms(1) by (cases ms) auto
  have "ms ! 0 # drop (length ms - 8) ms = ms" using assms(1) ms by simp
  then show ?thesis using assms by (simp add: stepMessages_long filter_isDefined_id)
qed

lemma stepMessages_idem: "stepMessages (stepMessages ms) = stepMessages ms"
proof (cases "8 < length ms")
  case False
  then show ?thesis by (simp add: stepMessages_short)
next
  case True
  let ?r = "stepMessages ms"
  have d: "list_all isDefined ?r" using True by (rule stepMessages_defined)
  have l: "length ?r \<le> 9" using True by (rule length_stepMessages_long)
  show ?thesis
  proof (cases "length ?r = 9")
    case True
    then show ?thesis using d by (rule stepMessages_nine)
  next
    case False
    with l have "length ?r \<le> 8" by simp
    then show ?thesis by (rule stepMessages_short)
  qed
qed

lemma nine_explicit:
  assumes "length ms = 9"
  shows "ms = ms ! 0 # map (\<lambda>i. ms ! i) [1..<9]"
proof -
  have "ms = map (\<lambda>i. ms ! i) [0..<9]" using assms by (metis map_nth)
  also have "[0..<9] = 0 # [1..<9]" by (simp add: upt_conv_Cons)
  finally show ?thesis by simp
qed

lemma drop_as_map: "drop k ms = map (\<lambda>i. ms ! i) [k..<length ms]"
  by (metis drop_map drop_upt map_nth add.right_neutral add_0)

lemma stepMessages_ten:
  assumes "length ms = 10" and "list_all isDefined ms"
  shows "stepMessages ms = ms ! 0 # map (\<lambda>i. ms ! i) [2..<10]"
proof -
  have "list_all isDefined (ms ! 0 # drop 2 ms)"
    using assms by (auto simp: list_all_iff dest: in_set_dropD)
  then have "filter isDefined (ms ! 0 # drop 2 ms) = ms ! 0 # drop 2 ms"
    by (rule filter_isDefined_id)
  moreover have "drop 2 ms = map (\<lambda>i. ms ! i) [2..<10]"
    using drop_as_map[of 2 ms] assms(1) by simp
  ultimately show ?thesis using assms(1) by (simp add: stepMessages_long)
qed

text \<open>
  C3, as the code has it. On a candidate list of more than 8 messages the context window
  manager returns the first message followed by the last 8, with undefined slots filtered
  out; a list of at most 8 messages is returned unchanged. For a history of 9 messages
  (position 0 the anchor, positions 1 to 8 the turns) the result is the input itself:
  message 0 followed by the messages at positions 1 to 8, in order, 9 messages. A history
  of 10 messages is the shortest that loses one: the result is message 0 followed by the
  messages at positions 2 to 9. Applying the manager to its own result changes nothing,
  for a list of at most 9 messages as for any other.
\<close>

theorem contextWindow_contract:
  "(8 < length ms \<longrightarrow>
      stepMessages ms = filter isDefined (ms ! 0 # drop (length ms - 8) ms)) \<and>
   (length ms \<le> 8 \<longrightarrow> stepMessages ms = ms) \<and>
   (length ms = 9 \<and> list_all isDefined ms \<longrightarrow>
      stepMessages ms = ms ! 0 # map (\<lambda>i. ms ! i) [1..<9] \<and>
      length (stepMessages ms) = 9) \<and>
   (length ms = 10 \<and> list_all isDefined ms \<longrightarrow>
      stepMessages ms = ms ! 0 # map (\<lambda>i. ms ! i) [2..<10]) \<and>
   (length ms \<le> 9 \<longrightarrow> stepMessages (stepMessages ms) = stepMessages ms)"
proof (intro conjI impI)
  assume "8 < length ms"
  then show "stepMessages ms = filter isDefined (ms ! 0 # drop (length ms - 8) ms)"
    by (rule stepMessages_long)
next
  assume "length ms \<le> 8"
  then show "stepMessages ms = ms" by (rule stepMessages_short)
next
  assume a: "length ms = 9 \<and> list_all isDefined ms"
  then have e: "stepMessages ms = ms" by (simp add: stepMessages_nine)
  from a have "ms = ms ! 0 # map (\<lambda>i. ms ! i) [1..<9]" using nine_explicit [of ms] by blast
  with e show "stepMessages ms = ms ! 0 # map (\<lambda>i. ms ! i) [1..<9]" by simp
  from a e show "length (stepMessages ms) = 9" by simp
next
  assume "length ms = 10 \<and> list_all isDefined ms"
  then show "stepMessages ms = ms ! 0 # map (\<lambda>i. ms ! i) [2..<10]"
    by (simp add: stepMessages_ten)
next
  show "stepMessages (stepMessages ms) = stepMessages ms" by (rule stepMessages_idem)
qed

lemma history_facts: "length (history n) = n" "list_all isDefined (history n)"
  by (simp_all add: history_def list_all_iff isDefined_def)

theorem contextWindow_contract_witness:
  "length (history 9) = 9 \<and> list_all isDefined (history 9) \<and>
   stepMessages (history 9) = history 9 ! 0 # map (\<lambda>i. history 9 ! i) [1..<9] \<and>
   length (stepMessages (history 9)) = 9 \<and>
   stepMessages (stepMessages (history 9)) = stepMessages (history 9) \<and>
   length (history 3) \<le> 8 \<and> stepMessages (history 3) = history 3 \<and>
   length (history 10) = 10 \<and> list_all isDefined (history 10) \<and>
   stepMessages (history 10) = history 10 ! 0 # map (\<lambda>i. history 10 ! i) [2..<10] \<and>
   8 < length (history 12) \<and>
   stepMessages (history 12) =
     filter isDefined (history 12 ! 0 # drop (length (history 12) - 8) (history 12))"
proof -
  have a: "length (history 9) = 9 \<and> list_all isDefined (history 9)"
    and b: "length (history 9) \<le> 9" and c: "length (history 3) \<le> 8"
    and d: "8 < length (history 12)"
    and e: "length (history 10) = 10 \<and> list_all isDefined (history 10)"
    by (simp_all add: history_facts)
  note t9 = contextWindow_contract [of "history 9"]
  note t3 = contextWindow_contract [of "history 3"]
  note t10 = contextWindow_contract [of "history 10"]
  note t12 = contextWindow_contract [of "history 12"]
  from t9 a have "stepMessages (history 9) = history 9 ! 0 # map (\<lambda>i. history 9 ! i) [1..<9] \<and>
      length (stepMessages (history 9)) = 9" by blast
  moreover from t9 b have "stepMessages (stepMessages (history 9)) = stepMessages (history 9)"
    by blast
  moreover from t3 c have "stepMessages (history 3) = history 3" by blast
  moreover from t10 e have
    "stepMessages (history 10) = history 10 ! 0 # map (\<lambda>i. history 10 ! i) [2..<10]" by blast
  moreover from t12 d have "stepMessages (history 12) =
     filter isDefined (history 12 ! 0 # drop (length (history 12) - 8) (history 12))" by blast
  ultimately show ?thesis using a c d e by blast
qed

text \<open>
  C3, as claimed, says that for a history of 9 messages, position 0 being the anchor, the
  result is message 0 followed by messages 2 to 9. The message at position 1 is kept: the
  result is the whole history, and it differs from message 0 followed by the messages at
  positions 2 and above at its second element.
\<close>

theorem contextWindow_nine_keeps_position_one:
  "stepMessages (history 9) =
     [Some 0, Some 1, Some 2, Some 3, Some 4, Some 5, Some 6, Some 7, Some 8] \<and>
   history 9 ! 2 = Some 2 \<and>
   stepMessages (history 9) \<noteq> history 9 ! 0 # map ((!) (history 9)) [2..<10]"
proof -
  have n: "[0..<9::nat] = [0, 1, 2, 3, 4, 5, 6, 7, 8]" by (simp add: upt_rec)
  have h: "history 9 = [Some 0, Some 1, Some 2, Some 3, Some 4, Some 5, Some 6, Some 7, Some 8]"
    by (simp add: history_def n)
  have s: "stepMessages (history 9) = history 9"
    by (rule stepMessages_nine) (simp_all add: history_facts)
  have u: "[2..<10::nat] = 2 # [3..<10]" by (simp add: upt_conv_Cons)
  have two: "history 9 ! 2 = Some 2" by (simp add: h)
  have "history 9 \<noteq> history 9 ! 0 # map ((!) (history 9)) [2..<10]"
  proof
    assume "history 9 = history 9 ! 0 # map ((!) (history 9)) [2..<10]"
    then have "history 9 ! 1 = (history 9 ! 0 # map ((!) (history 9)) [2..<10]) ! 1"
      by simp
    also have "\<dots> = history 9 ! 2" unfolding u by simp
    finally show False by (simp add: h)
  qed
  with s h two show ?thesis by simp
qed

lemma history_examples:
  "stepMessages (history 9) = map Some [0, 1, 2, 3, 4, 5, 6, 7, 8]"
  "stepMessages (history 10) = map Some [0, 2, 3, 4, 5, 6, 7, 8, 9]"
  "stepMessages (history 12) = map Some [0, 4, 5, 6, 7, 8, 9, 10, 11]"
  "stepMessages [None, Some 1, Some 2, Some 3, Some 4, Some 5, Some 6, Some 7, Some (8::nat)] =
     map Some [1, 2, 3, 4, 5, 6, 7, 8]"
  by code_simp+

lemma filter_map_nth:
  "filter P (map (\<lambda>i. ms ! i) is) = map (\<lambda>i. ms ! i) (filter (\<lambda>i. P (ms ! i)) is)"
  by (induction "is") auto

lemma stepMessages_keptIndices: "stepMessages ms = map (\<lambda>i. ms ! i) (keptIndices ms)"
proof (cases "8 < length ms")
  case False
  then show ?thesis by (simp add: stepMessages_short keptIndices_def map_nth)
next
  case True
  have "ms ! 0 # drop (length ms - 8) ms = map (\<lambda>i. ms ! i) (0 # [length ms - 8..<length ms])"
    by (simp add: drop_as_map)
  then show ?thesis using True
    by (simp only: stepMessages_long keptIndices_def filter_map_nth if_True)
qed

lemma sorted_keptIndices: "sorted_wrt (<) (keptIndices ms)"
proof (cases "8 < length ms")
  case False
  then show ?thesis by (simp add: keptIndices_def)
next
  case True
  then have "sorted_wrt (<) (0 # [length ms - 8..<length ms])" by auto
  then have "sorted_wrt (<) (filter (\<lambda>i. isDefined (ms ! i)) (0 # [length ms - 8..<length ms]))"
    by (rule sorted_wrt_filter)
  then show ?thesis using True by (simp only: keptIndices_def if_True)
qed

lemma keptIndices_bound: "\<forall>i \<in> set (keptIndices ms). i < length ms"
  by (auto simp: keptIndices_def)

lemma keptIndices_anchor:
  assumes "ms \<noteq> []" and "isDefined (ms ! 0)"
  shows "count_list (keptIndices ms) 0 = 1"
proof (cases "8 < length ms")
  case False
  have "[0..<length ms] = 0 # [1..<length ms]" using assms(1) by (simp add: upt_conv_Cons)
  moreover have "count_list [1..<length ms] 0 = 0" by (simp add: count_list_0_iff)
  ultimately show ?thesis using False by (simp add: keptIndices_def)
next
  case True
  have "count_list (filter (\<lambda>i. isDefined (ms ! i)) [length ms - 8..<length ms]) 0 = 0"
    using True by (simp add: count_list_0_iff)
  then show ?thesis using True assms(2) by (simp add: keptIndices_def)
qed

lemma length_stepMessages: "length (stepMessages ms) \<le> 9"
proof (cases "8 < length ms")
  case True
  then show ?thesis by (rule length_stepMessages_long)
next
  case False
  then show ?thesis by (simp add: stepMessages_short)
qed

lemma count_list_map_nth:
  assumes "distinct ms" and "\<forall>i \<in> set is. i < length ms" and "k < length ms"
  shows "count_list (map (\<lambda>i. ms ! i) is) (ms ! k) = count_list is k"
  using assms(2)
proof (induction "is")
  case Nil
  then show ?case by simp
next
  case (Cons i "is")
  then have "i < length ms" by simp
  then have "(ms ! i = ms ! k) = (i = k)"
    using assms(1,3) by (simp add: nth_eq_iff_index_eq)
  with Cons show ?case by simp
qed


lemma subseq_stepMessages: "subseq (stepMessages ms) ms"
proof (cases "8 < length ms")
  case False
  then show ?thesis by (simp add: stepMessages_short)
next
  case True
  then obtain m rest where ms: "ms = m # rest" by (cases ms) auto
  have "drop (length ms - 8) ms = drop (length rest - 8) rest"
    using True unfolding ms by (simp add: Suc_diff_le drop_Cons')
  moreover have "subseq (drop (length rest - 8) rest) rest"
    by (rule suffix_imp_subseq) (rule suffix_drop)
  ultimately have "subseq (ms ! 0 # drop (length ms - 8) ms) ms"
    unfolding ms by simp
  moreover have "subseq (filter isDefined (ms ! 0 # drop (length ms - 8) ms))
      (ms ! 0 # drop (length ms - 8) ms)"
    by (rule subseq_filter_left)
  ultimately show ?thesis
    unfolding stepMessages_long [OF True] by (rule subseq_order.trans [rotated])
qed

text \<open>
  C10. For every candidate list the result of the context window manager consists of the
  messages at strictly increasing positions of the input, so it is a subsequence of it and
  no message is repeated or moved; it has at most 9 messages; and position 0, the anchor,
  is taken exactly once whenever the list has a first message. When the messages of the
  input are pairwise different, so are those of the result, and the anchor occurs in it
  once.
\<close>

theorem contextWindow_subsequence:
  "(\<exists>is. stepMessages ms = map (\<lambda>i. ms ! i) is \<and> sorted_wrt (<) is \<and>
          (\<forall>i \<in> set is. i < length ms) \<and>
          (ms \<noteq> [] \<and> isDefined (ms ! 0) \<longrightarrow> count_list is 0 = 1)) \<and>
   subseq (stepMessages ms) ms \<and>
   length (stepMessages ms) \<le> 9 \<and>
   (distinct ms \<and> ms \<noteq> [] \<and> isDefined (ms ! 0) \<longrightarrow>
      distinct (stepMessages ms) \<and> count_list (stepMessages ms) (ms ! 0) = 1)"
proof (intro conjI impI)
  show "\<exists>is. stepMessages ms = map (\<lambda>i. ms ! i) is \<and> sorted_wrt (<) is \<and>
          (\<forall>i \<in> set is. i < length ms) \<and>
          (ms \<noteq> [] \<and> isDefined (ms ! 0) \<longrightarrow> count_list is 0 = 1)"
    using stepMessages_keptIndices [of ms] sorted_keptIndices [of ms] keptIndices_bound [of ms]
      keptIndices_anchor [of ms]
    by (intro exI [of _ "keptIndices ms"]) blast
  show "subseq (stepMessages ms) ms" by (rule subseq_stepMessages)
  show "length (stepMessages ms) \<le> 9" by (rule length_stepMessages)
next
  assume a: "distinct ms \<and> ms \<noteq> [] \<and> isDefined (ms ! 0)"
  have "distinct (keptIndices ms)"
    using sorted_keptIndices [of ms] strict_sorted_iff [of "keptIndices ms"] by blast
  moreover have "inj_on (\<lambda>i. ms ! i) (set (keptIndices ms))"
    using a keptIndices_bound [of ms] by (intro inj_on_nth) simp_all
  ultimately show "distinct (stepMessages ms)"
    by (simp add: stepMessages_keptIndices distinct_map)
  from a have "count_list (map (\<lambda>i. ms ! i) (keptIndices ms)) (ms ! 0) = count_list (keptIndices ms) 0"
    by (intro count_list_map_nth keptIndices_bound) simp_all
  with a show "count_list (stepMessages ms) (ms ! 0) = 1"
    by (simp add: stepMessages_keptIndices [symmetric] keptIndices_anchor)
qed

theorem contextWindow_subsequence_witness:
  "distinct (history 12) \<and> history 12 \<noteq> [] \<and> isDefined (history 12 ! 0) \<and>
   distinct (stepMessages (history 12)) \<and>
   count_list (stepMessages (history 12)) (history 12 ! 0) = 1 \<and>
   subseq (stepMessages (history 12)) (history 12) \<and>
   length (stepMessages (history 12)) \<le> 9"
proof -
  have a: "distinct (history 12) \<and> history 12 \<noteq> [] \<and> isDefined (history 12 ! 0)"
    by (simp add: history_def distinct_map isDefined_def)
  with contextWindow_subsequence [of "history 12"] show ?thesis by blast
qed

section \<open>Conversation state\<close>

lemma foldl_append_concat: "foldl (\<lambda>acc part. acc @ part) a parts = a @ concat parts"
  by (induction parts arbitrary: a) auto

lemma streamAgentResponse_completes:
  "agent (h @ [\<lparr>role = User, content = prompt\<rparr>]) = Inr parts \<Longrightarrow>
   streamAgentResponse agent h prompt =
     Inr (h @ [\<lparr>role = User, content = prompt\<rparr>, \<lparr>role = Assistant, content = concat parts\<rparr>])"
  by (simp add: streamAgentResponse_def foldl_append_concat)

lemma streamAgentResponse_roles:
  "streamAgentResponse agent h p = Inr h' \<Longrightarrow> map role h' = map role h @ [User, Assistant]"
  by (auto simp: streamAgentResponse_def Let_def split: sum.splits)

lemma chat_loop_roles:
  "chat_loop agent h lines = Inr h' \<Longrightarrow>
     map role h' = map role h @ concat (replicate (completedTurns lines) [User, Assistant])"
proof (induction lines arbitrary: h)
  case Nil
  then show ?case by (simp add: completedTurns_def)
next
  case (Cons line lines)
  show ?case
  proof (cases "trim line = []")
    case True
    with Cons show ?thesis by (simp add: completedTurns_def)
  next
    case False
    with Cons.prems obtain h1 where s: "streamAgentResponse agent h line = Inr h1"
      and c: "chat_loop agent h1 lines = Inr h'"
      by (auto split: sum.splits)
    have "map role h' = map role h1 @ concat (replicate (completedTurns lines) [User, Assistant])"
      using c by (rule Cons.IH)
    moreover have "map role h1 = map role h @ [User, Assistant]"
      using s by (rule streamAgentResponse_roles)
    moreover have "completedTurns (line # lines) = Suc (completedTurns lines)"
      using False by (simp add: completedTurns_def)
    ultimately show ?thesis by simp
  qed
qed

lemma alternating_nth:
  "i < 2 * n \<Longrightarrow> concat (replicate n [User, Assistant]) ! i = (if even i then User else Assistant)"
proof (induction n arbitrary: i)
  case 0
  then show ?case by simp
next
  case (Suc n)
  show ?case
  proof (cases i)
    case 0
    then show ?thesis by simp
  next
    case (Suc j)
    note ij = Suc
    show ?thesis
    proof (cases j)
      case 0
      with ij show ?thesis by simp
    next
      case (Suc k)
      with ij Suc.prems have "k < 2 * n" by simp
      then have "concat (replicate n [User, Assistant]) ! k = (if even k then User else Assistant)"
        by (rule Suc.IH)
      with ij Suc show ?thesis by simp
    qed
  qed
qed

lemma length_alternating: "length (concat (replicate n [User, Assistant])) = 2 * n"
  by (induction n) auto

text \<open>
  C8. Whenever the chat loop is waiting for input, the conversation state alternates
  between user and assistant messages, starting with a user message: no two neighbouring
  messages have the same role. After \<open>N\<close> completed turns (the lines that were not blank)
  it holds exactly \<open>2 * N\<close> messages.
\<close>

theorem conversation_alternates:
  assumes "chat_loop agent [] lines = Inr h"
  shows "map role h = concat (replicate (completedTurns lines) [User, Assistant]) \<and>
         length h = 2 * completedTurns lines \<and>
         (\<forall>i. i < length h \<longrightarrow> role (h ! i) = (if even i then User else Assistant)) \<and>
         (\<forall>i. Suc i < length h \<longrightarrow> role (h ! i) \<noteq> role (h ! Suc i))"
proof -
  let ?n = "completedTurns lines"
  have r: "map role h = concat (replicate ?n [User, Assistant])"
    using chat_loop_roles [OF assms] by simp
  have l: "length h = 2 * ?n"
    using arg_cong [OF r, of length] by (simp add: length_alternating)
  have nth: "role (h ! i) = (if even i then User else Assistant)" if "i < length h" for i
  proof -
    have "role (h ! i) = map role h ! i" using that by simp
    also have "\<dots> = (if even i then User else Assistant)"
      unfolding r using that l by (simp add: alternating_nth)
    finally show ?thesis .
  qed
  have adj: "role (h ! i) \<noteq> role (h ! Suc i)" if "Suc i < length h" for i
    using nth [of i] nth [of "Suc i"] that by simp
  from r l nth adj show ?thesis by blast
qed

theorem conversation_alternates_witness:
  "chat_loop echo_agent [] [units ''hi'', [0x00A0, 0x0020], units ''bye''] =
     Inr [\<lparr>role = User, content = units ''hi''\<rparr>, \<lparr>role = Assistant, content = units ''ok''\<rparr>,
          \<lparr>role = User, content = units ''bye''\<rparr>, \<lparr>role = Assistant, content = units ''ok''\<rparr>] \<and>
   completedTurns [units ''hi'', [0x00A0, 0x0020], units ''bye''] = 2 \<and>
   length [\<lparr>role = User, content = units ''hi''\<rparr>, \<lparr>role = Assistant, content = units ''ok''\<rparr>,
          \<lparr>role = User, content = units ''bye''\<rparr>, \<lparr>role = Assistant, content = units ''ok''\<rparr>]
     = 2 * completedTurns [units ''hi'', [0x00A0, 0x0020], units ''bye'']"
proof -
  have t: "trim (units ''hi'') \<noteq> []" "trim [0x00A0, 0x0020] = []" "trim (units ''bye'') \<noteq> []"
    by (simp_all add: trim_def isWhiteSpace_def units_def)
  have k: "units ''o'' @ units ''k'' = units ''ok''" by (simp add: units_def)
  have c: "chat_loop echo_agent [] [units ''hi'', [0x00A0, 0x0020], units ''bye''] =
     Inr [\<lparr>role = User, content = units ''hi''\<rparr>, \<lparr>role = Assistant, content = units ''ok''\<rparr>,
          \<lparr>role = User, content = units ''bye''\<rparr>, \<lparr>role = Assistant, content = units ''ok''\<rparr>]"
    by (simp add: t k streamAgentResponse_def echo_agent_def)
  have n: "completedTurns [units ''hi'', [0x00A0, 0x0020], units ''bye''] = 2"
    by (simp add: completedTurns_def t)
  from conversation_alternates [OF c] c n show ?thesis by simp
qed

section \<open>Step budget\<close>

lemma agent_steps_exhausted:
  "list_all (\<lambda>j. case m j of Step parts fin \<Rightarrow> fin = ToolCalls | StepFault e \<Rightarrow> False) [i..<i + budget] \<Longrightarrow>
   agent_steps m i budget = Inr (concat (map (\<lambda>j. text_parts (m j)) [i..<i + budget]))"
proof (induction budget arbitrary: i)
  case 0
  then show ?case by simp
next
  case (Suc budget)
  have u: "[i..<i + Suc budget] = i # [Suc i..<Suc i + budget]" by (simp add: upt_conv_Cons)
  from Suc.prems obtain parts where mi: "m i = Step parts ToolCalls"
    and rest: "list_all (\<lambda>j. case m j of Step parts fin \<Rightarrow> fin = ToolCalls | StepFault e \<Rightarrow> False) [Suc i..<Suc i + budget]"
    unfolding u by (auto split: step_result.splits)
  have "agent_steps m (Suc i) budget = Inr (concat (map (\<lambda>j. text_parts (m j)) [Suc i..<Suc i + budget]))"
    using rest by (rule Suc.IH)
  then show ?case unfolding u using mi by simp
qed

lemma agent_stream_exhausted:
  "exhausts_budget b messages \<Longrightarrow>
   agent_stream b messages = Inr (concat (map (\<lambda>i. text_parts (b messages i)) [0..<10]))"
  using agent_steps_exhausted [of "b messages" 0 10]
  by (simp add: exhausts_budget_def agent_stream_def)

text \<open>
  C9, as the code has it. When none of the ten steps of the budget is terminal, the turn
  completes: the text accumulated over the ten steps, which may be empty, is appended to
  the conversation state as one assistant message after the user message, and the chat
  loop goes on to the next line.
\<close>

theorem budget_exhaustion_completes_turn:
  assumes "exhausts_budget b (h @ [\<lparr>role = User, content = prompt\<rparr>])"
  shows "streamAgentResponse (agent_stream b) h prompt =
           Inr (h @ [\<lparr>role = User, content = prompt\<rparr>,
                     \<lparr>role = Assistant,
                      content = accumulatedText b (h @ [\<lparr>role = User, content = prompt\<rparr>])\<rparr>]) \<and>
         (trim prompt \<noteq> [] \<longrightarrow>
            chat_loop (agent_stream b) h (prompt # lines) =
            chat_loop (agent_stream b)
              (h @ [\<lparr>role = User, content = prompt\<rparr>,
                    \<lparr>role = Assistant,
                     content = accumulatedText b (h @ [\<lparr>role = User, content = prompt\<rparr>])\<rparr>])
              lines)"
proof -
  have "streamAgentResponse (agent_stream b) h prompt =
           Inr (h @ [\<lparr>role = User, content = prompt\<rparr>,
                     \<lparr>role = Assistant,
                      content = accumulatedText b (h @ [\<lparr>role = User, content = prompt\<rparr>])\<rparr>])"
    unfolding accumulatedText_def
    using agent_stream_exhausted [OF assms] by (rule streamAgentResponse_completes)
  then show ?thesis by simp
qed

lemma busy_exhausts: "exhausts_budget busy_backend messages"
  by (simp add: exhausts_budget_def busy_backend_def upt_rec)

lemma silent_exhausts: "exhausts_budget silent_backend messages"
  by (simp add: exhausts_budget_def silent_backend_def upt_rec)

theorem budget_exhaustion_completes_turn_witness:
  "exhausts_budget busy_backend ([] @ [\<lparr>role = User, content = units ''go''\<rparr>]) \<and>
   streamAgentResponse (agent_stream busy_backend) [] (units ''go'') =
     Inr [\<lparr>role = User, content = units ''go''\<rparr>,
          \<lparr>role = Assistant, content = units ''..........''\<rparr>] \<and>
   trim (units ''go'') \<noteq> [] \<and>
   chat_loop (agent_stream busy_backend) [] [units ''go''] =
     Inr [\<lparr>role = User, content = units ''go''\<rparr>,
          \<lparr>role = Assistant, content = units ''..........''\<rparr>]"
proof -
  have e: "exhausts_budget busy_backend ([] @ [\<lparr>role = User, content = units ''go''\<rparr>])"
    by (rule busy_exhausts)
  have t: "trim (units ''go'') \<noteq> []" by (simp add: trim_def isWhiteSpace_def units_def)
  have u: "[0..<10::nat] = [0, 1, 2, 3, 4, 5, 6, 7, 8, 9]" by (simp add: upt_rec)
  have a: "accumulatedText busy_backend ([] @ [\<lparr>role = User, content = units ''go''\<rparr>]) =
      units ''..........''"
    by (simp add: busy_backend_def accumulatedText_def u units_def)
  from budget_exhaustion_completes_turn [OF e, of "[]"] e t show ?thesis
    unfolding a by simp
qed

text \<open>
  C9, as claimed, says that the assistant message appended after the budget is used up is
  not empty. A model that asks for a tool call at each of the ten steps and writes no text
  leaves an assistant message with empty content.
\<close>

theorem budget_exhaustion_empty_message:
  "exhausts_budget silent_backend [\<lparr>role = User, content = units ''go''\<rparr>] \<and>
   streamAgentResponse (agent_stream silent_backend) [] (units ''go'') =
     Inr [\<lparr>role = User, content = units ''go''\<rparr>, \<lparr>role = Assistant, content = []\<rparr>]"
proof -
  have "agent_stream silent_backend [\<lparr>role = User, content = units ''go''\<rparr>] = Inr []"
    using agent_stream_exhausted
      [OF silent_exhausts, of "[\<lparr>role = User, content = units ''go''\<rparr>]"]
    by (simp add: silent_backend_def)
  then show ?thesis
    by (simp add: silent_exhausts streamAgentResponse_def)
qed

end
